theory Spec2Isabelle
  imports Main
begin

section \<open>The resilient quote fetcher of server.go\<close>

text \<open>
  The development embeds \<^verbatim>\<open>ApiCotacaoFetcher\<close> and its methods \<^verbatim>\<open>Fetch\<close>,
  \<^verbatim>\<open>incrementFailureCount\<close> and \<^verbatim>\<open>resetCircuit\<close>, and the request handler
  \<^verbatim>\<open>cotacaoHandler\<close>, as HOL functions over an explicit fetcher value.

  Conventions of the embedding:
  \<^item> The struct is a record; a method with a pointer receiver takes the record and returns
    the updated one. The mutex is not modelled: one call runs at a time.
  \<^item> Go's \<^verbatim>\<open>int\<close> is the 64-bit signed integer: \<^verbatim>\<open>failureCount++\<close> wraps from the
    largest value to the smallest. The loop counter \<^verbatim>\<open>i\<close> is a mathematical integer: it
    starts at 0 in every call and each increment costs one HTTP round trip, so it does not
    reach the bound within a call.
  \<^item> A \<^verbatim>\<open>time.Time\<close> is the number of nanoseconds since Go's zero time, a
    \<^verbatim>\<open>time.Duration\<close> a number of nanoseconds; \<^verbatim>\<open>time.Since\<close> saturates at the range of
    a 64-bit duration as the library does.
  \<^item> Everything outside the repository is an input of the call: the clock readings, the
    result of building the request, and what the HTTP client answers at each attempt.
  \<^item> A run-time panic is a result of its own, never an unspecified value.
\<close>

subsection \<open>Errors, JSON documents and HTTP answers\<close>

datatype error =
    RequestError string
  | ClientError string
  | SyntaxError
  | UnmarshalTypeError
  | SaveError string

datatype json =
    JNull
  | JBool bool
  | JNumber string
  | JString string
  | JArray "json list"
  | JObject "(string \<times> json) list"

text \<open>
  A \<open>JString\<close> holds the bytes of the string literal with its escapes resolved; where the
  literal escapes an unpaired surrogate, the bytes of U+FFFD stand in its place, as the
  decoder writes them. A \<open>JNumber\<close> holds the text of the number.
\<close>

text \<open>
  What \<^verbatim>\<open>json.NewDecoder(resp.Body)\<close> finds in the body: no complete JSON value (empty
  body, syntax error, read error), or a first JSON value.
\<close>

datatype body = Unreadable | Document json

record Response =
  StatusCode :: int
  Body :: body

text \<open>
  The two results of \<^verbatim>\<open>client.Do(req)\<close>. With a non-nil error the response pointer is nil,
  except when the redirect policy fails, where the library returns the last response along
  with the error.
\<close>

datatype answer =
    Failed error "Response option"
  | Responded Response

record Cotacao =
  Bid :: string

subsection \<open>Decoding into \<^verbatim>\<open>map[string]Cotacao\<close>\<close>

text \<open>
  \<^verbatim>\<open>encoding/json\<close> is the Go standard library; the functions below follow its documented
  behaviour for the one target type \<^verbatim>\<open>Fetch\<close> decodes into. A struct field is matched by
  name without regard to ASCII case; \<^verbatim>\<open>null\<close> leaves the target unchanged; a later
  occurrence overwrites an earlier one; a value of the wrong JSON type is an
  \<^verbatim>\<open>UnmarshalTypeError\<close>; fields that are not \<^verbatim>\<open>bid\<close> are skipped; a string is stored
  with its invalid bytes replaced. Keys are compared as they stand: a key with an invalid
  byte is neither \<^verbatim>\<open>USDBRL\<close> nor a spelling of \<^verbatim>\<open>bid\<close>, before or after the replacement.
\<close>

definition in_range :: "char \<Rightarrow> nat \<Rightarrow> nat \<Rightarrow> bool" where
  "in_range c lo hi = (lo \<le> of_char c \<and> of_char c \<le> hi)"

text \<open>
  The number of bytes of the well-formed UTF-8 sequence at the head of a string, 0 when
  there is none (\<^verbatim>\<open>utf8.DecodeRune\<close>: no overlong form, no surrogate, nothing above
  U+10FFFF).
\<close>

fun utf8_len :: "string \<Rightarrow> nat" where
  "utf8_len [] = 0"
| "utf8_len (c # cs) =
     (let b = (of_char c :: nat) in
      if b < 0x80 then 1
      else if 0xC2 \<le> b \<and> b \<le> 0xDF then
        (case cs of
           c1 # _ \<Rightarrow> if in_range c1 0x80 0xBF then 2 else 0
         | _ \<Rightarrow> 0)
      else if 0xE0 \<le> b \<and> b \<le> 0xEF then
        (case cs of
           c1 # c2 # _ \<Rightarrow>
             if in_range c1 (if b = 0xE0 then 0xA0 else 0x80) (if b = 0xED then 0x9F else 0xBF)
                \<and> in_range c2 0x80 0xBF
             then 3 else 0
         | _ \<Rightarrow> 0)
      else if 0xF0 \<le> b \<and> b \<le> 0xF4 then
        (case cs of
           c1 # c2 # c3 # _ \<Rightarrow>
             if in_range c1 (if b = 0xF0 then 0x90 else 0x80) (if b = 0xF4 then 0x8F else 0xBF)
                \<and> in_range c2 0x80 0xBF \<and> in_range c3 0x80 0xBF
             then 4 else 0
         | _ \<Rightarrow> 0)
      else 0)"

text \<open>
  The string a Go string value becomes when the decoder stores it, and when the encoder
  writes it: every byte that does not begin a well-formed sequence is replaced by the
  three bytes of U+FFFD. The first argument counts the bytes of the current sequence that
  are still to be copied.
\<close>

fun coerce :: "nat \<Rightarrow> string \<Rightarrow> string" where
  "coerce n [] = []"
| "coerce (Suc n) (c # cs) = c # coerce n cs"
| "coerce 0 (c # cs) =
     (case utf8_len (c # cs) of
        0 \<Rightarrow> [CHR 0xEF, CHR 0xBF, CHR 0xBD] @ coerce 0 cs
      | Suc l \<Rightarrow> c # coerce l cs)"

definition to_valid_utf8 :: "string \<Rightarrow> string" where
  "to_valid_utf8 s = coerce 0 s"

definition is_bid_key :: "string \<Rightarrow> bool" where
  "is_bid_key k =
     (case k of
        [b, i, d] \<Rightarrow>
          (b = CHR ''b'' \<or> b = CHR ''B'') \<and> (i = CHR ''i'' \<or> i = CHR ''I'')
            \<and> (d = CHR ''d'' \<or> d = CHR ''D'')
      | _ \<Rightarrow> False)"

fun decode_fields :: "(string \<times> json) list \<Rightarrow> string \<Rightarrow> error + string" where
  "decode_fields [] b = Inr b"
| "decode_fields ((k, v) # kvs) b =
     (if is_bid_key k then
        (case v of
           JString s \<Rightarrow> decode_fields kvs (to_valid_utf8 s)
         | JNull \<Rightarrow> decode_fields kvs b
         | _ \<Rightarrow> Inl UnmarshalTypeError)
      else decode_fields kvs b)"

definition decode_Cotacao :: "json \<Rightarrow> error + Cotacao" where
  "decode_Cotacao v =
     (case v of
        JNull \<Rightarrow> Inr \<lparr>Bid = ''''\<rparr>
      | JObject kvs \<Rightarrow>
          (case decode_fields kvs '''' of
             Inl err \<Rightarrow> Inl err
           | Inr b \<Rightarrow> Inr \<lparr>Bid = b\<rparr>)
      | _ \<Rightarrow> Inl UnmarshalTypeError)"

fun decode_members ::
  "(string \<times> json) list \<Rightarrow> (string \<rightharpoonup> Cotacao) \<Rightarrow> error + (string \<rightharpoonup> Cotacao)" where
  "decode_members [] m = Inr m"
| "decode_members ((k, v) # kvs) m =
     (case decode_Cotacao v of
        Inl err \<Rightarrow> Inl err
      | Inr c \<Rightarrow> decode_members kvs (m(k \<mapsto> c)))"

definition Decode :: "body \<Rightarrow> error + (string \<rightharpoonup> Cotacao)" where
  "Decode b =
     (case b of
        Unreadable \<Rightarrow> Inl SyntaxError
      | Document JNull \<Rightarrow> Inr Map.empty
      | Document (JObject kvs) \<Rightarrow> decode_members kvs Map.empty
      | Document _ \<Rightarrow> Inl UnmarshalTypeError)"

text \<open>\<^verbatim>\<open>result["USDBRL"].Bid\<close>: a missing key reads as the zero \<^verbatim>\<open>Cotacao\<close>.\<close>

definition index_Bid :: "(string \<rightharpoonup> Cotacao) \<Rightarrow> string \<Rightarrow> string" where
  "index_Bid result k = (case result k of None \<Rightarrow> '''' | Some c \<Rightarrow> Bid c)"

subsection \<open>The fetcher\<close>

record ApiCotacaoFetcher =
  url :: string
  retry :: int
  failureThreshold :: int
  failureCount :: int
  circuitOpen :: bool
  lastAttemptTime :: int
  circuitResetTime :: int
  fallbackValue :: string

definition NewApiCotacaoFetcher ::
  "string \<Rightarrow> int \<Rightarrow> int \<Rightarrow> int \<Rightarrow> string \<Rightarrow> ApiCotacaoFetcher" where
  "NewApiCotacaoFetcher u r threshold resetTime fallback =
     \<lparr>url = u, retry = r, failureThreshold = threshold, failureCount = 0,
      circuitOpen = False, lastAttemptTime = 0, circuitResetTime = resetTime,
      fallbackValue = fallback\<rparr>"

definition maxDuration :: int where
  "maxDuration = 2 ^ 63 - 1"

definition minDuration :: int where
  "minDuration = - (2 ^ 63)"

text \<open>\<^verbatim>\<open>time.Since(t)\<close> read at the instant \<open>now\<close>.\<close>

definition Since :: "int \<Rightarrow> int \<Rightarrow> int" where
  "Since now t =
     (if now - t > maxDuration then maxDuration
      else if now - t < minDuration then minDuration
      else now - t)"

text \<open>The bounds of Go's \<^verbatim>\<open>int\<close>, and the value of an arithmetic result in that type.\<close>

definition MaxInt :: int where
  "MaxInt = 2 ^ 63 - 1"

definition MinInt :: int where
  "MinInt = - (2 ^ 63)"

definition wrap_int :: "int \<Rightarrow> int" where
  "wrap_int x = (x + 2 ^ 63) mod 2 ^ 64 - 2 ^ 63"

definition incrementFailureCount :: "ApiCotacaoFetcher \<Rightarrow> ApiCotacaoFetcher" where
  "incrementFailureCount f =
     (let f1 = f\<lparr>failureCount := wrap_int (failureCount f + 1)\<rparr>
      in if failureCount f1 \<ge> failureThreshold f1 then f1\<lparr>circuitOpen := True\<rparr> else f1)"

definition resetCircuit :: "ApiCotacaoFetcher \<Rightarrow> ApiCotacaoFetcher" where
  "resetCircuit f = f\<lparr>failureCount := 0, circuitOpen := False\<rparr>"

text \<open>
  The inputs of one call of \<^verbatim>\<open>Fetch\<close>: the clock at the first test of the breaker, at
  the second test, and after the loop; the error of \<^verbatim>\<open>http.NewRequestWithContext\<close> (it
  depends on the URL and the context only, so it is the same at every iteration); and the
  answer of the upstream to the \<open>n\<close>-th \<^verbatim>\<open>client.Do\<close> of this call, counted from 0.
\<close>

record env =
  now_check :: int
  now_recheck :: int
  now_exhausted :: int
  newRequest :: "error option"
  upstream :: "nat \<Rightarrow> answer"

datatype outcome =
    Returned string "error option"
  | Panicked

text \<open>
  A run of \<^verbatim>\<open>Fetch\<close>: what the caller gets, the fetcher afterwards, and the number of
  \<^verbatim>\<open>client.Do\<close> calls issued.
\<close>

record fetch_run =
  outcome :: outcome
  fetcher :: ApiCotacaoFetcher
  attempts :: nat

text \<open>
  The test of the breaker under the lock at the head of \<^verbatim>\<open>Fetch\<close>, with the clock read
  by the first and by the second condition: whether the call is bypassed, and the fetcher
  afterwards.
\<close>

definition circuit_check :: "int \<Rightarrow> int \<Rightarrow> ApiCotacaoFetcher \<Rightarrow> bool \<times> ApiCotacaoFetcher" where
  "circuit_check now1 now2 f =
     (if circuitOpen f \<and> Since now1 (lastAttemptTime f) < circuitResetTime f
      then (True, f)
      else if circuitOpen f \<and> Since now2 (lastAttemptTime f) \<ge> circuitResetTime f
      then (False, f\<lparr>circuitOpen := False, failureCount := 0\<rparr>)
      else (False, f))"

text \<open>
  The loop \<^verbatim>\<open>for i := 0; i <= f.retry; i++\<close> with the statements after it. In the branch
  of a client error the log statement reads \<^verbatim>\<open>resp.StatusCode\<close> before the failure is
  counted: with a nil response that is a nil dereference.
\<close>

function retry_loop ::
  "env \<Rightarrow> ApiCotacaoFetcher \<Rightarrow> error option \<Rightarrow> int \<Rightarrow> nat \<Rightarrow> fetch_run" where
  "retry_loop e f lastErr i n =
     (if i \<le> retry f then
        (case newRequest e of
           Some err \<Rightarrow> \<lparr>outcome = Returned '''' (Some err), fetcher = f, attempts = n\<rparr>
         | None \<Rightarrow>
             (case upstream e n of
                Failed err None \<Rightarrow>
                  \<lparr>outcome = Panicked, fetcher = f, attempts = n + 1\<rparr>
              | Failed err (Some resp) \<Rightarrow>
                  retry_loop e (incrementFailureCount f) (Some err) (i + 1) (n + 1)
              | Responded resp \<Rightarrow>
                  (case Decode (Body resp) of
                     Inl err \<Rightarrow>
                       retry_loop e (incrementFailureCount f) (Some err) (i + 1) (n + 1)
                   | Inr result \<Rightarrow>
                       \<lparr>outcome = Returned (index_Bid result ''USDBRL'') None,
                        fetcher = resetCircuit f, attempts = n + 1\<rparr>)))
      else
        \<lparr>outcome = Returned (fallbackValue f) lastErr,
         fetcher = f\<lparr>lastAttemptTime := now_exhausted e\<rparr>, attempts = n\<rparr>)"
  by pat_completeness auto
termination
  by (relation "measure (\<lambda>(e, f, lastErr, i, n). nat (retry f - i + 1))")
     (auto simp: incrementFailureCount_def Let_def)

definition Fetch :: "ApiCotacaoFetcher \<Rightarrow> env \<Rightarrow> fetch_run" where
  "Fetch f e =
     (case circuit_check (now_check e) (now_recheck e) f of
        (True, f') \<Rightarrow> \<lparr>outcome = Returned (fallbackValue f') None, fetcher = f', attempts = 0\<rparr>
      | (False, f') \<Rightarrow> retry_loop e f' None 0 0)"

subsection \<open>The request handler\<close>

text \<open>
  What \<^verbatim>\<open>cotacaoHandler\<close> writes: \<^verbatim>\<open>http.Error\<close> sends a status and a line of text,
  \<^verbatim>\<open>json.NewEncoder(w).Encode\<close> sends a JSON document with the status 200, the string in
  it with its invalid bytes replaced. The repository
  is the result of \<^verbatim>\<open>Save\<close> on the value it is given. A panic of \<^verbatim>\<open>Fetch\<close> unwinds the
  handler.
\<close>

datatype payload = PlainText string | JSON json

datatype served = Served int payload | Crashed

definition cotacaoHandler ::
  "ApiCotacaoFetcher \<Rightarrow> env \<Rightarrow> (string \<Rightarrow> error option) \<Rightarrow> served \<times> ApiCotacaoFetcher" where
  "cotacaoHandler f e Save =
     (let r = Fetch f e in
      case outcome r of
        Panicked \<Rightarrow> (Crashed, fetcher r)
      | Returned cotacao (Some err) \<Rightarrow>
          (Served 500 (PlainText (''Failed to fetch cotacao'' @ [CHR 0x0A])), fetcher r)
      | Returned cotacao None \<Rightarrow>
          (case Save cotacao of
             Some err \<Rightarrow>
               (Served 500 (PlainText (''Failed to save cotacao'' @ [CHR 0x0A])), fetcher r)
           | None \<Rightarrow>
               (Served 200 (JSON (JObject [(''Cotacao'', JString (to_valid_utf8 cotacao))])),
                fetcher r)))"

subsection \<open>Vocabulary of the properties\<close>

text \<open>
  The three ways an attempt can end once the request is sent: a failure that the loop
  counts, with the error it remembers; a success, with the value returned; a client error
  without a response.
\<close>

fun failure_of :: "answer \<Rightarrow> error option" where
  "failure_of (Failed err None) = None"
| "failure_of (Failed err (Some resp)) = Some err"
| "failure_of (Responded resp) =
     (case Decode (Body resp) of Inl err \<Rightarrow> Some err | Inr result \<Rightarrow> None)"

fun success_of :: "answer \<Rightarrow> string option" where
  "success_of (Failed err resp) = None"
| "success_of (Responded resp) =
     (case Decode (Body resp) of
        Inl err \<Rightarrow> None
      | Inr result \<Rightarrow> Some (index_Bid result ''USDBRL''))"

fun panics :: "answer \<Rightarrow> bool" where
  "panics (Failed err None) = True"
| "panics (Failed err (Some resp)) = False"
| "panics (Responded resp) = False"

text \<open>The value of \<^verbatim>\<open>lastErr\<close> after \<open>k\<close> counted failures starting at attempt \<open>n\<close>.\<close>

definition last_error :: "env \<Rightarrow> error option \<Rightarrow> nat \<Rightarrow> nat \<Rightarrow> error option" where
  "last_error e lastErr n k =
     (if k = 0 then lastErr else failure_of (upstream e (n + k - 1)))"

text \<open>
  The writes to the breaker, one event each: the test at the head of \<^verbatim>\<open>Fetch\<close>,
  \<^verbatim>\<open>incrementFailureCount\<close>, \<^verbatim>\<open>resetCircuit\<close>, and the assignment of
  \<^verbatim>\<open>lastAttemptTime\<close> after the loop. A fetcher is reachable when it comes from the
  constructor by such events, in any order, as long as no failure is counted on a failure
  count that stands at the largest \<^verbatim>\<open>int\<close>: that takes \<open>2 ^ 63 - 1\<close> failures counted
  since the last reset.
\<close>

datatype event = Check int int | Failure | Success | Exhausted int

fun apply_event :: "event \<Rightarrow> ApiCotacaoFetcher \<Rightarrow> ApiCotacaoFetcher" where
  "apply_event (Check now1 now2) f = snd (circuit_check now1 now2 f)"
| "apply_event Failure f = incrementFailureCount f"
| "apply_event Success f = resetCircuit f"
| "apply_event (Exhausted now) f = f\<lparr>lastAttemptTime := now\<rparr>"

inductive reachable :: "ApiCotacaoFetcher \<Rightarrow> bool" where
  new: "reachable (NewApiCotacaoFetcher u r threshold resetTime fallback)"
| event: "reachable f \<Longrightarrow> ev = Failure \<longrightarrow> failureCount f < MaxInt \<Longrightarrow>
          reachable (apply_event ev f)"

text \<open>
  The payload the upstream is expected to send, after the wording of the specification (a
  mapping whose value for the pair key carries a field holding the bid as a string), read
  off the document without the decoder. A member decodes when it is null or an object
  whose fields spelled \<^verbatim>\<open>bid\<close>, in any letter case, hold strings or null. A payload is
  well formed with the bid \<open>s\<close> when it is an object whose members decode, whose last member
  under the key \<^verbatim>\<open>USDBRL\<close> is an object with exactly one field spelled \<^verbatim>\<open>bid\<close>, and
  that field holds the string \<open>s\<close>, in valid UTF-8.
\<close>

definition bid_fields :: "(string \<times> json) list \<Rightarrow> (string \<times> json) list" where
  "bid_fields kvs = filter (\<lambda>kv. is_bid_key (fst kv)) kvs"

definition string_or_null :: "json \<Rightarrow> bool" where
  "string_or_null v = (case v of JString s \<Rightarrow> True | JNull \<Rightarrow> True | _ \<Rightarrow> False)"

definition decodable_member :: "json \<Rightarrow> bool" where
  "decodable_member v =
     (case v of
        JNull \<Rightarrow> True
      | JObject kvs \<Rightarrow> list_all (\<lambda>kv. string_or_null (snd kv)) (bid_fields kvs)
      | _ \<Rightarrow> False)"

definition well_formed_payload :: "json \<Rightarrow> string \<Rightarrow> bool" where
  "well_formed_payload doc s =
     (case doc of
        JObject members \<Rightarrow>
          list_all (\<lambda>kv. decodable_member (snd kv)) members
          \<and> (case map_of (rev members) ''USDBRL'' of
                Some (JObject kvs) \<Rightarrow> map snd (bid_fields kvs) = [JString s]
              | _ \<Rightarrow> False)
          \<and> to_valid_utf8 s = s
      | _ \<Rightarrow> False)"

subsection \<open>Concrete fetchers and answers\<close>

text \<open>
  The fetcher \<^verbatim>\<open>main\<close> builds (three retries, threshold two, two seconds of cooldown,
  fallback \<^verbatim>\<open>1.00\<close>), the same fetcher with its breaker open since the fourth second, and
  some answers of the upstream.
\<close>

definition main_fetcher :: ApiCotacaoFetcher where
  "main_fetcher =
     NewApiCotacaoFetcher ''https://economia.awesomeapi.com.br/json/last/USD-BRL'' 3 2
       2000000000 ''1.00''"

definition tripped_fetcher :: ApiCotacaoFetcher where
  "tripped_fetcher =
     main_fetcher\<lparr>failureCount := 4, circuitOpen := True, lastAttemptTime := 4000000000\<rparr>"

definition env_of :: "int \<Rightarrow> (nat \<Rightarrow> answer) \<Rightarrow> env" where
  "env_of now up =
     \<lparr>now_check = now, now_recheck = now + 1, now_exhausted = now + 200000000,
      newRequest = None, upstream = up\<rparr>"

definition timed_out :: answer where
  "timed_out = Failed (ClientError ''context deadline exceeded'') None"

definition garbled :: answer where
  "garbled = Responded \<lparr>StatusCode = 200, Body = Unreadable\<rparr>"

definition quoted :: "string \<Rightarrow> answer" where
  "quoted s =
     Responded \<lparr>StatusCode = 200,
       Body = Document (JObject [(''USDBRL'', JObject [(''bid'', JString s)])])\<rparr>"

definition empty_object :: "int \<Rightarrow> answer" where
  "empty_object st = Responded \<lparr>StatusCode = st, Body = Document (JObject [])\<rparr>"

text \<open>
  Whether the test at the head of \<^verbatim>\<open>Fetch\<close> bypasses the call, and the fetcher the loop
  starts with when it does not.
\<close>

definition bypassed :: "ApiCotacaoFetcher \<Rightarrow> env \<Rightarrow> bool" where
  "bypassed f e = fst (circuit_check (now_check e) (now_recheck e) f)"

definition admitted :: "ApiCotacaoFetcher \<Rightarrow> env \<Rightarrow> ApiCotacaoFetcher" where
  "admitted f e = snd (circuit_check (now_check e) (now_recheck e) f)"

text \<open>
  A fetcher whose URL has lost its scheme, so that \<^verbatim>\<open>http.NewRequestWithContext\<close> fails
  to parse it, with no retry; and the inputs of a call of it.
\<close>

definition unparsable_fetcher :: ApiCotacaoFetcher where
  "unparsable_fetcher =
     NewApiCotacaoFetcher ''://economia.awesomeapi.com.br/json/last/USD-BRL'' 0 2
       2000000000 ''1.00''"

definition no_request :: env where
  "no_request =
     (env_of 5000000000 (\<lambda>n. garbled))
       \<lparr>newRequest := Some (RequestError ''missing protocol scheme'')\<rparr>"

text \<open>The fetcher of \<^verbatim>\<open>main\<close> after two counted failures.\<close>

definition two_failures :: ApiCotacaoFetcher where
  "two_failures = apply_event Failure (apply_event Failure main_fetcher)"

text \<open>
  A payload of the shape the upstream sends, and one whose quote spells the bid field
  twice.
\<close>

definition two_bids_payload :: json where
  "two_bids_payload =
     JObject [(''USDBRL'', JObject [(''bid'', JString ''1''), (''BiD'', JString ''2'')])]"

definition usd_payload :: json where
  "usd_payload =
     JObject [(''USDBRL'',
       JObject [(''code'', JString ''USD''), (''codein'', JString ''BRL''),
         (''bid'', JString ''5.4300''), (''ask'', JString ''5.4312'')]),
       (''meta'', JObject [])]"

section \<open>Properties\<close>

subsection \<open>The loop, step by step\<close>

declare retry_loop.simps [simp del]

lemma incrementFailureCount_fields [simp]:
  "retry (incrementFailureCount f) = retry f"
  "url (incrementFailureCount f) = url f"
  "failureThreshold (incrementFailureCount f) = failureThreshold f"
  "failureCount (incrementFailureCount f) = wrap_int (failureCount f + 1)"
  "lastAttemptTime (incrementFailureCount f) = lastAttemptTime f"
  "circuitResetTime (incrementFailureCount f) = circuitResetTime f"
  "fallbackValue (incrementFailureCount f) = fallbackValue f"
  "circuitOpen (incrementFailureCount f) =
     (circuitOpen f \<or> failureThreshold f \<le> wrap_int (failureCount f + 1))"
  by (auto simp: incrementFailureCount_def Let_def)

lemma wrap_int_in_range: "MinInt \<le> x \<Longrightarrow> x \<le> MaxInt \<Longrightarrow> wrap_int x = x"
  by (simp add: wrap_int_def MinInt_def MaxInt_def)

lemma failures_fields [simp]:
  "retry ((incrementFailureCount ^^ k) f) = retry f"
  "url ((incrementFailureCount ^^ k) f) = url f"
  "failureThreshold ((incrementFailureCount ^^ k) f) = failureThreshold f"
  "lastAttemptTime ((incrementFailureCount ^^ k) f) = lastAttemptTime f"
  "circuitResetTime ((incrementFailureCount ^^ k) f) = circuitResetTime f"
  "fallbackValue ((incrementFailureCount ^^ k) f) = fallbackValue f"
  by (induction k) simp_all

lemma failures_failureCount:
  "MinInt \<le> failureCount f \<Longrightarrow> failureCount f + int k \<le> MaxInt \<Longrightarrow>
   failureCount ((incrementFailureCount ^^ k) f) = failureCount f + int k"
  by (induction k) (simp_all add: wrap_int_in_range)

lemma loop_exit:
  "retry f < i \<Longrightarrow>
   retry_loop e f lastErr i n =
     \<lparr>outcome = Returned (fallbackValue f) lastErr,
      fetcher = f\<lparr>lastAttemptTime := now_exhausted e\<rparr>, attempts = n\<rparr>"
  by (subst retry_loop.simps) simp

lemma loop_request_error:
  "i \<le> retry f \<Longrightarrow> newRequest e = Some err \<Longrightarrow>
   retry_loop e f lastErr i n =
     \<lparr>outcome = Returned '''' (Some err), fetcher = f, attempts = n\<rparr>"
  by (subst retry_loop.simps) simp

lemma loop_failure:
  "i \<le> retry f \<Longrightarrow> newRequest e = None \<Longrightarrow> failure_of (upstream e n) = Some err \<Longrightarrow>
   retry_loop e f lastErr i n =
     retry_loop e (incrementFailureCount f) (Some err) (i + 1) (n + 1)"
  by (subst retry_loop.simps, cases "upstream e n" rule: failure_of.cases)
     (auto split: sum.splits)

lemma loop_success:
  "i \<le> retry f \<Longrightarrow> newRequest e = None \<Longrightarrow> success_of (upstream e n) = Some v \<Longrightarrow>
   retry_loop e f lastErr i n =
     \<lparr>outcome = Returned v None, fetcher = resetCircuit f, attempts = n + 1\<rparr>"
  by (subst retry_loop.simps, cases "upstream e n" rule: failure_of.cases)
     (auto split: sum.splits)

lemma loop_panic:
  "i \<le> retry f \<Longrightarrow> newRequest e = None \<Longrightarrow> panics (upstream e n) \<Longrightarrow>
   retry_loop e f lastErr i n = \<lparr>outcome = Panicked, fetcher = f, attempts = n + 1\<rparr>"
  by (subst retry_loop.simps, cases "upstream e n" rule: failure_of.cases)
     (auto split: sum.splits)

lemma answer_cases:
  "panics a \<or> (\<exists>err. failure_of a = Some err) \<or> (\<exists>v. success_of a = Some v)"
  by (cases a rule: failure_of.cases) (auto split: sum.splits)

text \<open>After \<open>k\<close> counted failures in a row the loop stands \<open>k\<close> iterations further.\<close>

lemma loop_failures:
  "newRequest e = None \<Longrightarrow> i + int k \<le> retry f + 1 \<Longrightarrow>
   \<forall>j<k. failure_of (upstream e (n + j)) \<noteq> None \<Longrightarrow>
   retry_loop e f lastErr i n =
     retry_loop e ((incrementFailureCount ^^ k) f) (last_error e lastErr n k)
       (i + int k) (n + k)"
proof (induction k arbitrary: f lastErr i n)
  case 0
  then show ?case by (simp add: last_error_def)
next
  case (Suc k)
  from Suc.prems(3) obtain err where err: "failure_of (upstream e n) = Some err"
    by (metis add.right_neutral not_Some_eq zero_less_Suc)
  from Suc.prems(2) have i: "i \<le> retry f" by simp
  have step: "retry_loop e f lastErr i n =
      retry_loop e (incrementFailureCount f) (Some err) (i + 1) (n + 1)"
    using i Suc.prems(1) err by (rule loop_failure)
  have later: "\<forall>j<k. failure_of (upstream e (n + 1 + j)) \<noteq> None"
    using Suc.prems(3) by (metis Suc_less_eq add_Suc_right add_Suc_shift Suc_eq_plus1)
  have "retry_loop e (incrementFailureCount f) (Some err) (i + 1) (n + 1) =
      retry_loop e ((incrementFailureCount ^^ k) (incrementFailureCount f))
        (last_error e (Some err) (n + 1) k) (i + 1 + int k) (n + 1 + k)"
    using Suc.prems(1,2) later by (intro Suc.IH) simp_all
  moreover have "last_error e (Some err) (n + 1) k = last_error e lastErr n (Suc k)"
    using err by (simp add: last_error_def)
  moreover have "(incrementFailureCount ^^ k) (incrementFailureCount f) =
      (incrementFailureCount ^^ Suc k) f"
    by (simp add: funpow_swap1)
  ultimately show ?case using step by (simp add: add.commute add.left_commute)
qed

text \<open>
  Induction along the iterations of the loop: one case for each way an iteration ends.
\<close>

lemma loop_induct [case_names exit request_error panic success failure]:
  assumes exit: "\<And>f lastErr i n. retry f < i \<Longrightarrow> P f lastErr i n"
    and request_error: "\<And>f lastErr i n err.
      i \<le> retry f \<Longrightarrow> newRequest e = Some err \<Longrightarrow> P f lastErr i n"
    and panic: "\<And>f lastErr i n.
      i \<le> retry f \<Longrightarrow> newRequest e = None \<Longrightarrow> panics (upstream e n) \<Longrightarrow> P f lastErr i n"
    and success: "\<And>f lastErr i n v.
      i \<le> retry f \<Longrightarrow> newRequest e = None \<Longrightarrow> success_of (upstream e n) = Some v \<Longrightarrow>
      P f lastErr i n"
    and failure: "\<And>f lastErr i n err.
      i \<le> retry f \<Longrightarrow> newRequest e = None \<Longrightarrow> failure_of (upstream e n) = Some err \<Longrightarrow>
      P (incrementFailureCount f) (Some err) (i + 1) (n + 1) \<Longrightarrow> P f lastErr i n"
  shows "P f lastErr i c"
proof -
  have "\<forall>f lastErr i c. m = nat (retry f - i + 1) \<longrightarrow> P f lastErr i c" for m
  proof (induction m)
    case 0
    show ?case
    proof (intro allI impI)
      fix f :: ApiCotacaoFetcher and lastErr i c
      assume "0 = nat (retry f - i + 1)"
      then have "retry f < i" by simp
      then show "P f lastErr i c" by (rule exit)
    qed
  next
    case (Suc m)
    show ?case
    proof (intro allI impI)
      fix f :: ApiCotacaoFetcher and lastErr i c
      assume m: "Suc m = nat (retry f - i + 1)"
      then have i: "i \<le> retry f" by simp
      show "P f lastErr i c"
      proof (cases "newRequest e")
        case (Some err)
        with i show ?thesis by (rule request_error)
      next
        case None
        consider "panics (upstream e c)" | err where "failure_of (upstream e c) = Some err"
          | v where "success_of (upstream e c) = Some v"
          using answer_cases by blast
        then show ?thesis
        proof cases
          case 1
          with i None show ?thesis by (rule panic)
        next
          case 2
          have "m = nat (retry (incrementFailureCount f) - (i + 1) + 1)"
            using m by simp
          with Suc.IH have "P (incrementFailureCount f) (Some err) (i + 1) (c + 1)"
            by blast
          with i None 2 show ?thesis by (rule failure)
        next
          case 3
          with i None show ?thesis by (rule success)
        qed
      qed
    qed
  qed
  then show ?thesis by blast
qed

lemma loop_attempts_ge: "n \<le> attempts (retry_loop e f lastErr i n)"
  by (induction f lastErr i n rule: loop_induct [where e = e])
     (simp_all add: loop_exit loop_request_error loop_panic loop_success loop_failure)

lemma loop_attempts_le: "attempts (retry_loop e f lastErr i n) \<le> n + nat (retry f - i + 1)"
  by (induction f lastErr i n rule: loop_induct [where e = e])
     (simp_all add: loop_exit loop_request_error loop_panic loop_success loop_failure)

lemma loop_attempts_gt:
  "i \<le> retry f \<Longrightarrow> newRequest e = None \<Longrightarrow> n < attempts (retry_loop e f lastErr i n)"
proof -
  assume i: "i \<le> retry f" and req: "newRequest e = None"
  consider "panics (upstream e n)" | err where "failure_of (upstream e n) = Some err"
    | v where "success_of (upstream e n) = Some v"
    using answer_cases by blast
  then show ?thesis
  proof cases
    case 1
    then show ?thesis using i req by (simp add: loop_panic)
  next
    case 2
    have "n + 1 \<le> attempts (retry_loop e (incrementFailureCount f) (Some err) (i + 1) (n + 1))"
      by (rule loop_attempts_ge)
    then show ?thesis using i req 2 by (simp add: loop_failure)
  next
    case 3
    then show ?thesis using i req by (simp add: loop_success)
  qed
qed

text \<open>The loop stops short of its last iteration only for a reason.\<close>

lemma loop_fewer:
  "\<forall>j. \<not> panics (upstream e j) \<Longrightarrow>
   attempts (retry_loop e f lastErr i n) < n + nat (retry f - i + 1) \<Longrightarrow>
   (newRequest e \<noteq> None \<and> attempts (retry_loop e f lastErr i n) = n)
   \<or> (\<exists>v. success_of (upstream e (attempts (retry_loop e f lastErr i n) - 1)) = Some v
         \<and> outcome (retry_loop e f lastErr i n) = Returned v None)"
proof (induction f lastErr i n rule: loop_induct [where e = e])
  case (exit f lastErr i n)
  then show ?case by (simp add: loop_exit)
next
  case (request_error f lastErr i n err)
  then show ?case by (simp add: loop_request_error)
next
  case (panic f lastErr i n)
  then show ?case by simp
next
  case (success f lastErr i n v)
  then show ?case by (simp add: loop_success)
next
  case (failure f lastErr i n err)
  then show ?case by (simp add: loop_failure)
qed

lemma loop_error_value:
  "outcome (retry_loop e f lastErr i n) = Returned v (Some err) \<Longrightarrow>
   v = fallbackValue f \<or> (v = '''' \<and> newRequest e = Some err)"
  by (induction f lastErr i n rule: loop_induct [where e = e])
     (simp_all add: loop_exit loop_request_error loop_panic loop_success loop_failure)

subsection \<open>A whole call\<close>

lemma admitted_fields [simp]:
  "retry (admitted f e) = retry f"
  "url (admitted f e) = url f"
  "failureThreshold (admitted f e) = failureThreshold f"
  "lastAttemptTime (admitted f e) = lastAttemptTime f"
  "circuitResetTime (admitted f e) = circuitResetTime f"
  "fallbackValue (admitted f e) = fallbackValue f"
  by (simp_all add: admitted_def circuit_check_def)

lemma Fetch_admitted:
  "\<not> bypassed f e \<Longrightarrow> Fetch f e = retry_loop e (admitted f e) None 0 0"
  by (cases "circuit_check (now_check e) (now_recheck e) f")
     (auto simp: Fetch_def bypassed_def admitted_def)

lemma Since_mono: "now1 \<le> now2 \<Longrightarrow> Since now1 t \<le> Since now2 t"
  by (simp add: Since_def maxDuration_def minDuration_def)

lemma Fetch_failures:
  assumes "\<not> bypassed f e" and "newRequest e = None" and "int k \<le> retry f + 1"
    and "\<forall>j<k. failure_of (upstream e j) \<noteq> None"
  shows "Fetch f e =
    retry_loop e ((incrementFailureCount ^^ k) (admitted f e)) (last_error e None 0 k) (int k) k"
proof -
  have "retry_loop e (admitted f e) None 0 0 =
      retry_loop e ((incrementFailureCount ^^ k) (admitted f e)) (last_error e None 0 k)
        (0 + int k) (0 + k)"
    using assms(2-4) by (intro loop_failures) simp_all
  then show ?thesis using assms(1) by (simp add: Fetch_admitted)
qed

lemma Fetch_exhausted:
  assumes "\<not> bypassed f e" and "newRequest e = None" and "0 \<le> retry f"
    and "\<forall>j\<le>nat (retry f). failure_of (upstream e j) \<noteq> None"
  shows "Fetch f e =
    \<lparr>outcome = Returned (fallbackValue f) (failure_of (upstream e (nat (retry f)))),
     fetcher = ((incrementFailureCount ^^ (nat (retry f) + 1)) (admitted f e))
       \<lparr>lastAttemptTime := now_exhausted e\<rparr>,
     attempts = nat (retry f) + 1\<rparr>"
proof -
  let ?k = "nat (retry f) + 1"
  have "Fetch f e =
      retry_loop e ((incrementFailureCount ^^ ?k) (admitted f e)) (last_error e None 0 ?k)
        (int ?k) ?k"
    using assms by (intro Fetch_failures) auto
  moreover have "retry ((incrementFailureCount ^^ ?k) (admitted f e)) < int ?k"
    using assms(3) by simp
  ultimately show ?thesis by (simp add: loop_exit last_error_def)
qed

lemmas evaluation =
  Fetch_def circuit_check_def Since_def maxDuration_def minDuration_def retry_loop.simps
  Decode_def decode_Cotacao_def is_bid_key_def index_Bid_def resetCircuit_def
  to_valid_utf8_def in_range_def Let_def
  incrementFailureCount_def wrap_int_def

subsection \<open>Transport errors\<close>

text \<open>
  Claim C1. An attempt that ends in a transport error is meant to record a failure on the
  breaker, remember the error and go on to the next attempt without crashing. The code
  does not: on the first attempt of the fetcher of \<^verbatim>\<open>main\<close>, a timed-out request (a
  client error with a nil response) makes the log statement dereference the nil response.
  \<^verbatim>\<open>Fetch\<close> panics after one attempt, and no failure has been counted.
\<close>

theorem Fetch_transport_error_panics:
  "Fetch main_fetcher (env_of 5000000000 (\<lambda>n. timed_out)) =
     \<lparr>outcome = Panicked, fetcher = main_fetcher, attempts = 1\<rparr>"
  by (simp add: main_fetcher_def NewApiCotacaoFetcher_def env_of_def timed_out_def evaluation)

subsection \<open>The open breaker\<close>

text \<open>
  Claim C4. When the breaker is open and less than the cooldown has passed since
  \<^verbatim>\<open>lastAttemptTime\<close> (the one timestamp the fetcher keeps) at the start of \<^verbatim>\<open>Fetch\<close>, the
  call returns the fallback value with a nil error, issues no request and leaves the fetcher
  as it was.
\<close>

theorem Fetch_bypass:
  assumes "circuitOpen f"
    and "Since (now_check e) (lastAttemptTime f) < circuitResetTime f"
  shows "Fetch f e = \<lparr>outcome = Returned (fallbackValue f) None, fetcher = f, attempts = 0\<rparr>"
  using assms by (simp add: Fetch_def circuit_check_def)

theorem Fetch_bypass_witness:
  "circuitOpen tripped_fetcher
   \<and> Since (now_check (env_of 5000000000 (\<lambda>n. quoted ''5.43'')))
        (lastAttemptTime tripped_fetcher) < circuitResetTime tripped_fetcher
   \<and> Fetch tripped_fetcher (env_of 5000000000 (\<lambda>n. quoted ''5.43'')) =
      \<lparr>outcome = Returned ''1.00'' None, fetcher = tripped_fetcher, attempts = 0\<rparr>"
  using Fetch_bypass [of tripped_fetcher "env_of 5000000000 (\<lambda>n. quoted ''5.43'')"]
  by (simp add: tripped_fetcher_def main_fetcher_def NewApiCotacaoFetcher_def env_of_def quoted_def Since_def maxDuration_def minDuration_def)

subsection \<open>Responses that are not a quote\<close>

text \<open>
  Claim C2. A response with a status outside 2xx, or with a body that is not a mapping with
  the pair key carrying a bid string, is meant to be a failure of the attempt: counted on
  the breaker and retried. The code does not do so. It never reads the status, and it takes
  the bid of every body that decodes into \<^verbatim>\<open>map[string]Cotacao\<close>, a missing key reading as
  the empty string: on the answer \<^verbatim>\<open>{}\<close> with status 500, and likewise with status 200,
  the fetcher of \<^verbatim>\<open>main\<close> returns the empty string with a nil error after one attempt,
  and no failure is counted.
\<close>

theorem non_2xx_and_missing_key_are_success:
  "Fetch main_fetcher (env_of 5000000000 (\<lambda>n. empty_object 500)) =
     \<lparr>outcome = Returned '''' None, fetcher = main_fetcher, attempts = 1\<rparr>
   \<and> Fetch main_fetcher (env_of 5000000000 (\<lambda>n. empty_object 200)) =
     \<lparr>outcome = Returned '''' None, fetcher = main_fetcher, attempts = 1\<rparr>"
  by (simp add: main_fetcher_def NewApiCotacaoFetcher_def env_of_def empty_object_def evaluation)

subsection \<open>The number of attempts\<close>

text \<open>
  Claim C3 says that a call that is not bypassed makes at most \<open>N + 1\<close> attempts for a retry
  count \<open>N \<ge> 0\<close>, and fewer only when an attempt succeeds, so exactly one for \<open>N = 0\<close> when
  none succeeds. When the request cannot be built (a URL that does not parse) the loop
  returns the empty string and the error at its first iteration: with \<open>N = 0\<close> the call
  makes no attempt at all, and none has succeeded.
\<close>

theorem request_error_makes_no_attempt:
  "retry unparsable_fetcher = 0
   \<and> \<not> bypassed unparsable_fetcher no_request
   \<and> Fetch unparsable_fetcher no_request =
      \<lparr>outcome = Returned '''' (Some (RequestError ''missing protocol scheme'')),
       fetcher = unparsable_fetcher, attempts = 0\<rparr>"
  by (simp add: unparsable_fetcher_def NewApiCotacaoFetcher_def no_request_def env_of_def garbled_def evaluation bypassed_def)

text \<open>
  Claim C3 as amended, for the calls in which no attempt ends in a client error without a
  response. A call that is not bypassed, with a retry count \<open>N \<ge> 0\<close>, makes at most
  \<open>N + 1\<close> attempts. It makes fewer only when the request could not be built, in which case
  it makes none, or when its last attempt succeeded and its value is returned. With
  \<open>N = 0\<close> and a request that builds it makes exactly one attempt.
\<close>

theorem attempts_bounded_by_retry:
  assumes "\<not> bypassed f e" and "0 \<le> retry f" and "\<forall>j. \<not> panics (upstream e j)"
  shows "attempts (Fetch f e) \<le> nat (retry f) + 1
    \<and> (attempts (Fetch f e) < nat (retry f) + 1 \<longrightarrow>
         (newRequest e \<noteq> None \<and> attempts (Fetch f e) = 0)
         \<or> (\<exists>v. success_of (upstream e (attempts (Fetch f e) - 1)) = Some v
               \<and> outcome (Fetch f e) = Returned v None))
    \<and> (retry f = 0 \<and> newRequest e = None \<longrightarrow> attempts (Fetch f e) = 1)"
proof -
  let ?r = "retry_loop e (admitted f e) None 0 0"
  have run: "Fetch f e = ?r"
    using assms(1) by (rule Fetch_admitted)
  have bound: "nat (retry (admitted f e) - 0 + 1) = nat (retry f) + 1"
    using assms(2) by simp
  have "attempts ?r \<le> 0 + nat (retry (admitted f e) - 0 + 1)"
    by (rule loop_attempts_le)
  then have le: "attempts (Fetch f e) \<le> nat (retry f) + 1"
    using run bound by simp
  have fewer: "(newRequest e \<noteq> None \<and> attempts (Fetch f e) = 0)
      \<or> (\<exists>v. success_of (upstream e (attempts (Fetch f e) - 1)) = Some v
            \<and> outcome (Fetch f e) = Returned v None)"
    if "attempts (Fetch f e) < nat (retry f) + 1"
  proof -
    from that have "attempts ?r < 0 + nat (retry (admitted f e) - 0 + 1)"
      using run bound by simp
    with assms(3) have "(newRequest e \<noteq> None \<and> attempts ?r = 0)
        \<or> (\<exists>v. success_of (upstream e (attempts ?r - 1)) = Some v
              \<and> outcome ?r = Returned v None)"
      by (rule loop_fewer)
    then show ?thesis using run by simp
  qed
  have one: "attempts (Fetch f e) = 1" if "retry f = 0" and "newRequest e = None"
  proof -
    have "0 < attempts ?r"
      using that by (intro loop_attempts_gt) simp_all
    with le that run show ?thesis by simp
  qed
  from le fewer one show ?thesis by blast
qed

theorem attempts_bounded_by_retry_witness:
  "\<not> bypassed main_fetcher (env_of 5000000000 (\<lambda>n. if n = 1 then quoted ''5.43'' else garbled))
   \<and> 0 \<le> retry main_fetcher
   \<and> attempts (Fetch main_fetcher (env_of 5000000000 (\<lambda>n. if n = 1 then quoted ''5.43'' else garbled)))
       \<le> nat (retry main_fetcher) + 1
   \<and> attempts (Fetch main_fetcher (env_of 5000000000 (\<lambda>n. if n = 1 then quoted ''5.43'' else garbled))) = 2
   \<and> outcome (Fetch main_fetcher (env_of 5000000000 (\<lambda>n. if n = 1 then quoted ''5.43'' else garbled)))
       = Returned ''5.43'' None"
proof -
  let ?e = "env_of 5000000000 (\<lambda>n. if n = 1 then quoted ''5.43'' else garbled)"
  have 1: "\<not> bypassed main_fetcher ?e"
    by (simp add: bypassed_def circuit_check_def main_fetcher_def NewApiCotacaoFetcher_def)
  have 2: "0 \<le> retry main_fetcher"
    by (simp add: main_fetcher_def NewApiCotacaoFetcher_def)
  have 3: "\<forall>j. \<not> panics (upstream ?e j)"
    by (simp add: env_of_def garbled_def quoted_def)
  have 4: "attempts (Fetch main_fetcher ?e) \<le> nat (retry main_fetcher) + 1"
    using attempts_bounded_by_retry [OF 1 2 3] by blast
  have 5: "Fetch main_fetcher ?e =
      \<lparr>outcome = Returned ''5.43'' None, fetcher = main_fetcher, attempts = 2\<rparr>"
    by (simp add: main_fetcher_def NewApiCotacaoFetcher_def env_of_def garbled_def quoted_def evaluation)
  from 1 2 3 4 5 show ?thesis by simp
qed

subsection \<open>After the cooldown\<close>

text \<open>
  Claim C5 says that a call that finds the breaker open with the cooldown over closes it,
  resets the failure count, and then attempts the network call exactly once. The call runs
  the whole retry loop: the fetcher of \<^verbatim>\<open>main\<close>, open since the fourth second and called
  at the seventh, issues four requests when none of them decodes.
\<close>

theorem cooldown_reset_retries:
  "circuitOpen tripped_fetcher
   \<and> circuitResetTime tripped_fetcher
       \<le> Since (now_check (env_of 7000000000 (\<lambda>n. garbled))) (lastAttemptTime tripped_fetcher)
   \<and> attempts (Fetch tripped_fetcher (env_of 7000000000 (\<lambda>n. garbled))) = 4"
  by (simp add: tripped_fetcher_def main_fetcher_def NewApiCotacaoFetcher_def env_of_def garbled_def evaluation)

text \<open>
  Claim C5 as amended. When a call begins with the breaker open and the cooldown over,
  however long ago, and the clock does not go back between the two tests, the test at the
  head of \<^verbatim>\<open>Fetch\<close> closes the breaker and sets the failure count to 0, and the call
  behaves exactly like a call on that closed fetcher: it runs the retry loop, with at
  most \<open>retry + 1\<close> attempts, and at least one when the request builds and \<open>retry \<ge> 0\<close>.
\<close>

theorem cooldown_reset:
  assumes "circuitOpen f"
    and "circuitResetTime f \<le> Since (now_check e) (lastAttemptTime f)"
    and "now_check e \<le> now_recheck e"
  shows "\<not> bypassed f e
    \<and> admitted f e = f\<lparr>circuitOpen := False, failureCount := 0\<rparr>
    \<and> Fetch f e = Fetch (f\<lparr>circuitOpen := False, failureCount := 0\<rparr>) e
    \<and> attempts (Fetch f e) \<le> nat (retry f + 1)
    \<and> (0 \<le> retry f \<and> newRequest e = None \<longrightarrow> 1 \<le> attempts (Fetch f e))"
proof -
  let ?g = "f\<lparr>circuitOpen := False, failureCount := 0\<rparr>"
  have "Since (now_check e) (lastAttemptTime f) \<le> Since (now_recheck e) (lastAttemptTime f)"
    using assms(3) by (rule Since_mono)
  with assms(2) have again: "circuitResetTime f \<le> Since (now_recheck e) (lastAttemptTime f)"
    by simp
  have check: "circuit_check (now_check e) (now_recheck e) f = (False, ?g)"
    using assms(1,2) again by (simp add: circuit_check_def)
  then have not_bypassed: "\<not> bypassed f e" and start: "admitted f e = ?g"
    by (simp_all add: bypassed_def admitted_def)
  have run: "Fetch f e = retry_loop e ?g None 0 0"
    using not_bypassed start by (simp add: Fetch_admitted)
  have "circuit_check (now_check e) (now_recheck e) ?g = (False, ?g)"
    by (simp add: circuit_check_def)
  then have closed: "Fetch ?g e = retry_loop e ?g None 0 0"
    by (simp add: Fetch_def)
  have "attempts (retry_loop e ?g None 0 0) \<le> 0 + nat (retry ?g - 0 + 1)"
    by (rule loop_attempts_le)
  then have le: "attempts (Fetch f e) \<le> nat (retry f + 1)"
    using run by simp
  have ge: "1 \<le> attempts (Fetch f e)" if "0 \<le> retry f" and "newRequest e = None"
  proof -
    have "0 < attempts (retry_loop e ?g None 0 0)"
      using that by (intro loop_attempts_gt) simp_all
    then show ?thesis using run by simp
  qed
  from not_bypassed start run closed le ge show ?thesis by simp
qed

theorem cooldown_reset_witness:
  "circuitOpen tripped_fetcher
   \<and> circuitResetTime tripped_fetcher
       \<le> Since (now_check (env_of 7000000000 (\<lambda>n. quoted ''5.43''))) (lastAttemptTime tripped_fetcher)
   \<and> now_check (env_of 7000000000 (\<lambda>n. quoted ''5.43''))
       \<le> now_recheck (env_of 7000000000 (\<lambda>n. quoted ''5.43''))
   \<and> admitted tripped_fetcher (env_of 7000000000 (\<lambda>n. quoted ''5.43'')) =
       tripped_fetcher\<lparr>circuitOpen := False, failureCount := 0\<rparr>
   \<and> Fetch tripped_fetcher (env_of 7000000000 (\<lambda>n. quoted ''5.43'')) =
       Fetch (tripped_fetcher\<lparr>circuitOpen := False, failureCount := 0\<rparr>)
         (env_of 7000000000 (\<lambda>n. quoted ''5.43''))
   \<and> attempts (Fetch tripped_fetcher (env_of 7000000000 (\<lambda>n. quoted ''5.43''))) = 1"
proof -
  let ?e = "env_of 7000000000 (\<lambda>n. quoted ''5.43'')"
  have 1: "circuitOpen tripped_fetcher"
    by (simp add: tripped_fetcher_def main_fetcher_def NewApiCotacaoFetcher_def env_of_def quoted_def)
  have 2: "circuitResetTime tripped_fetcher \<le> Since (now_check ?e) (lastAttemptTime tripped_fetcher)"
    by (simp add: tripped_fetcher_def main_fetcher_def NewApiCotacaoFetcher_def env_of_def quoted_def Since_def maxDuration_def minDuration_def)
  have 3: "now_check ?e \<le> now_recheck ?e"
    by (simp add: env_of_def)
  have 4: "attempts (Fetch tripped_fetcher ?e) = 1"
    by (simp add: tripped_fetcher_def main_fetcher_def NewApiCotacaoFetcher_def env_of_def quoted_def evaluation)
  from cooldown_reset [OF 1 2 3] 1 2 3 4 show ?thesis by simp
qed

subsection \<open>Counting a failure\<close>

text \<open>
  Claim C6 says that the call that makes the failure count reach the threshold opens the
  breaker and records the time of that transition. \<^verbatim>\<open>incrementFailureCount\<close> does not
  read the clock: after the second failure of the fetcher of \<^verbatim>\<open>main\<close> the breaker is
  open and \<^verbatim>\<open>lastAttemptTime\<close> is still the zero time.
\<close>

theorem opening_keeps_timestamp:
  "failureCount (incrementFailureCount (incrementFailureCount main_fetcher)) = 2
   \<and> circuitOpen (incrementFailureCount (incrementFailureCount main_fetcher))
   \<and> \<not> circuitOpen (incrementFailureCount main_fetcher)
   \<and> lastAttemptTime (incrementFailureCount (incrementFailureCount main_fetcher)) = 0"
  by (simp add: main_fetcher_def NewApiCotacaoFetcher_def wrap_int_def)

text \<open>
  Claim C6 as amended. Every call of \<^verbatim>\<open>incrementFailureCount\<close> adds one to the failure
  count in Go's \<^verbatim>\<open>int\<close>: below the largest value the count grows by one, at the largest
  value it wraps to the smallest. The call opens the breaker when the new count has reached
  the threshold and leaves it as it was otherwise; it never changes \<^verbatim>\<open>lastAttemptTime\<close>.
  The time the cooldown is measured from is written by \<^verbatim>\<open>Fetch\<close>, after the loop, when
  every attempt of the call was a counted failure.
\<close>

theorem incrementFailureCount_effect:
  "failureCount (incrementFailureCount f) = wrap_int (failureCount f + 1)
   \<and> (MinInt \<le> failureCount f \<and> failureCount f < MaxInt \<longrightarrow>
        failureCount (incrementFailureCount f) = failureCount f + 1)
   \<and> (failureCount f = MaxInt \<longrightarrow> failureCount (incrementFailureCount f) = MinInt)
   \<and> (failureThreshold f \<le> failureCount (incrementFailureCount f) \<longrightarrow>
        circuitOpen (incrementFailureCount f))
   \<and> (failureCount (incrementFailureCount f) < failureThreshold f \<longrightarrow>
        circuitOpen (incrementFailureCount f) = circuitOpen f)
   \<and> lastAttemptTime (incrementFailureCount f) = lastAttemptTime f
   \<and> (\<not> bypassed f e \<and> newRequest e = None \<and> 0 \<le> retry f
        \<and> (\<forall>j\<le>nat (retry f). failure_of (upstream e j) \<noteq> None) \<longrightarrow>
        lastAttemptTime (fetcher (Fetch f e)) = now_exhausted e)"
proof -
  have "wrap_int (failureCount f + 1) = failureCount f + 1"
    if "MinInt \<le> failureCount f" and "failureCount f < MaxInt"
    using that by (intro wrap_int_in_range) simp_all
  moreover have "wrap_int (failureCount f + 1) = MinInt" if "failureCount f = MaxInt"
    using that by (simp add: wrap_int_def MinInt_def MaxInt_def)
  ultimately show ?thesis by (auto simp: Fetch_exhausted)
qed

theorem incrementFailureCount_effect_witness:
  "failureCount (incrementFailureCount main_fetcher) = 1
   \<and> \<not> circuitOpen (incrementFailureCount main_fetcher)
   \<and> failureCount (incrementFailureCount (incrementFailureCount main_fetcher)) = 2
   \<and> circuitOpen (incrementFailureCount (incrementFailureCount main_fetcher))
   \<and> failureCount (incrementFailureCount (main_fetcher\<lparr>failureCount := MaxInt\<rparr>)) = MinInt
   \<and> \<not> circuitOpen (incrementFailureCount (main_fetcher\<lparr>failureCount := MaxInt\<rparr>))
   \<and> lastAttemptTime (fetcher (Fetch main_fetcher (env_of 5000000000 (\<lambda>n. garbled)))) =
       5200000000"
proof -
  let ?f1 = "incrementFailureCount main_fetcher"
  let ?top = "main_fetcher\<lparr>failureCount := MaxInt\<rparr>"
  let ?e = "env_of 5000000000 (\<lambda>n. garbled)"
  have main: "failureCount main_fetcher = 0" "failureThreshold main_fetcher = 2"
    "\<not> circuitOpen main_fetcher" "retry main_fetcher = 3"
    by (simp_all add: main_fetcher_def NewApiCotacaoFetcher_def)
  have bounds: "MinInt \<le> 0" "0 < MaxInt" "MinInt \<le> 1" "1 < MaxInt" "MinInt < 2"
    by (simp_all add: MinInt_def MaxInt_def)
  have one: "failureCount ?f1 = 1"
    using incrementFailureCount_effect [of main_fetcher ?e] main bounds by simp
  have closed: "\<not> circuitOpen ?f1"
    using incrementFailureCount_effect [of main_fetcher ?e] main one by simp
  have two: "failureCount (incrementFailureCount ?f1) = 2"
    using incrementFailureCount_effect [of ?f1 ?e] one bounds by simp
  have opened: "circuitOpen (incrementFailureCount ?f1)"
    using incrementFailureCount_effect [of ?f1 ?e] two main by simp
  have wrapped: "failureCount (incrementFailureCount ?top) = MinInt"
    using incrementFailureCount_effect [of ?top ?e] by simp
  have still: "\<not> circuitOpen (incrementFailureCount ?top)"
    using incrementFailureCount_effect [of ?top ?e] wrapped main bounds by simp
  have 3: "\<not> bypassed main_fetcher ?e"
    by (simp add: bypassed_def circuit_check_def main_fetcher_def NewApiCotacaoFetcher_def)
  have 4: "newRequest ?e = None" "now_exhausted ?e = 5200000000"
    by (simp_all add: env_of_def)
  have 5: "\<forall>j\<le>nat (retry main_fetcher). failure_of (upstream ?e j) \<noteq> None"
    by (simp add: env_of_def garbled_def Decode_def)
  have stamp: "lastAttemptTime (fetcher (Fetch main_fetcher ?e)) = 5200000000"
    using incrementFailureCount_effect [of main_fetcher ?e] main 3 4 5 by simp
  from one closed two opened wrapped still stamp show ?thesis by simp
qed

subsection \<open>Errors and the fallback value\<close>

text \<open>
  Claim C8 says that no path of \<^verbatim>\<open>Fetch\<close> returns an error with anything but the
  fallback value. The first statement of the loop body does: a fetcher whose URL does not
  parse, and whose fallback value is \<^verbatim>\<open>1.00\<close>, returns the error of building the request
  with the empty string.
\<close>

theorem request_error_without_fallback:
  "Fetch unparsable_fetcher no_request =
     \<lparr>outcome = Returned '''' (Some (RequestError ''missing protocol scheme'')),
      fetcher = unparsable_fetcher, attempts = 0\<rparr>
   \<and> fallbackValue unparsable_fetcher = ''1.00''"
  by (simp add: unparsable_fetcher_def NewApiCotacaoFetcher_def no_request_def env_of_def garbled_def evaluation)

text \<open>
  Claim C8 as amended. An error returned by \<^verbatim>\<open>Fetch\<close> comes with the fallback value,
  except the error of building the request, which comes with the empty string. When the
  call is not bypassed, the request builds and every attempt of the loop is a counted
  failure, \<^verbatim>\<open>Fetch\<close> returns the fallback value with the error of the last attempt and
  sets \<^verbatim>\<open>lastAttemptTime\<close> to the time read after the loop.
\<close>

theorem error_comes_with_fallback:
  "(outcome (Fetch f e) = Returned v (Some err) \<longrightarrow>
      v = fallbackValue f \<or> (v = '''' \<and> newRequest e = Some err))
   \<and> (\<not> bypassed f e \<and> newRequest e = None \<and> 0 \<le> retry f
       \<and> (\<forall>j\<le>nat (retry f). failure_of (upstream e j) \<noteq> None) \<longrightarrow>
       outcome (Fetch f e) = Returned (fallbackValue f) (failure_of (upstream e (nat (retry f))))
       \<and> lastAttemptTime (fetcher (Fetch f e)) = now_exhausted e)"
proof -
  have "v = fallbackValue f \<or> (v = '''' \<and> newRequest e = Some err)"
    if ret: "outcome (Fetch f e) = Returned v (Some err)"
  proof (cases "bypassed f e")
    case True
    then have "outcome (Fetch f e) = Returned (fallbackValue f) None"
      by (auto simp: Fetch_def bypassed_def circuit_check_def split: if_splits)
    with ret show ?thesis by simp
  next
    case False
    then have "outcome (retry_loop e (admitted f e) None 0 0) = Returned v (Some err)"
      using ret by (simp add: Fetch_admitted)
    then have "v = fallbackValue (admitted f e) \<or> (v = '''' \<and> newRequest e = Some err)"
      by (rule loop_error_value)
    then show ?thesis by simp
  qed
  then show ?thesis by (auto simp: Fetch_exhausted)
qed

theorem error_comes_with_fallback_witness:
  "outcome (Fetch main_fetcher (env_of 5000000000 (\<lambda>n. garbled))) = Returned ''1.00'' (Some SyntaxError)
   \<and> ''1.00'' = fallbackValue main_fetcher
   \<and> \<not> bypassed main_fetcher (env_of 5000000000 (\<lambda>n. garbled))
   \<and> newRequest (env_of 5000000000 (\<lambda>n. garbled)) = None
   \<and> 0 \<le> retry main_fetcher
   \<and> lastAttemptTime (fetcher (Fetch main_fetcher (env_of 5000000000 (\<lambda>n. garbled)))) = 5200000000"
proof -
  let ?e = "env_of 5000000000 (\<lambda>n. garbled)"
  have 1: "\<not> bypassed main_fetcher ?e"
    by (simp add: bypassed_def circuit_check_def main_fetcher_def NewApiCotacaoFetcher_def env_of_def garbled_def)
  have 2: "newRequest ?e = None" "0 \<le> retry main_fetcher"
    by (simp_all add: main_fetcher_def NewApiCotacaoFetcher_def env_of_def garbled_def)
  have 3: "\<forall>j\<le>nat (retry main_fetcher). failure_of (upstream ?e j) \<noteq> None"
    by (simp add: env_of_def garbled_def Decode_def)
  have 4: "failure_of (upstream ?e (nat (retry main_fetcher))) = Some SyntaxError"
    by (simp add: env_of_def garbled_def Decode_def)
  have 5: "now_exhausted ?e = 5200000000" "fallbackValue main_fetcher = ''1.00''"
    by (simp_all add: main_fetcher_def NewApiCotacaoFetcher_def env_of_def garbled_def)
  from error_comes_with_fallback [of main_fetcher ?e "''1.00''" SyntaxError] 1 2 3 4 5
  show ?thesis by simp
qed

subsection \<open>The breaker inside the loop\<close>



subsection \<open>The invariant of the breaker\<close>

lemma circuit_check_snd:
  "snd (circuit_check now1 now2 f) = f
   \<or> snd (circuit_check now1 now2 f) = f\<lparr>circuitOpen := False, failureCount := 0\<rparr>"
  by (simp add: circuit_check_def)

lemma wrap_int_succ_nonzero:
  assumes "0 \<le> c" and "c \<le> MaxInt"
  shows "wrap_int (c + 1) \<noteq> 0"
proof (cases "c = MaxInt")
  case True
  then show ?thesis by (simp add: wrap_int_def MaxInt_def)
next
  case False
  with assms have "wrap_int (c + 1) = c + 1"
    by (intro wrap_int_in_range) (simp_all add: MinInt_def)
  with assms(1) show ?thesis by simp
qed

lemma reachable_invariant:
  "reachable f \<Longrightarrow>
   0 \<le> failureCount f \<and> failureCount f \<le> MaxInt
   \<and> (circuitOpen f \<longrightarrow> 1 \<le> failureCount f \<and> failureThreshold f \<le> failureCount f)"
proof (induction rule: reachable.induct)
  case (new u r threshold resetTime fallback)
  show ?case by (simp add: NewApiCotacaoFetcher_def MaxInt_def)
next
  case (event f ev)
  show ?case
  proof (cases ev)
    case (Check now1 now2)
    with event.IH circuit_check_snd [of now1 now2 f] show ?thesis
      by (auto simp: MaxInt_def)
  next
    case Failure
    with event.hyps(2) have below: "failureCount f < MaxInt" by simp
    then have "wrap_int (failureCount f + 1) = failureCount f + 1"
      using event.IH by (intro wrap_int_in_range) (simp_all add: MinInt_def)
    with Failure event.IH below show ?thesis by auto
  next
    case Success
    then show ?thesis by (simp add: resetCircuit_def MaxInt_def)
  next
    case (Exhausted now)
    with event.IH show ?thesis by simp
  qed
qed

lemma apply_event_threshold [simp]:
  "failureThreshold (apply_event ev f) = failureThreshold f"
  by (cases ev) (simp_all add: circuit_check_def resetCircuit_def)

lemma opening_at_threshold:
  "\<not> circuitOpen f \<Longrightarrow> circuitOpen (apply_event ev f) \<Longrightarrow>
   failureThreshold f \<le> failureCount (apply_event ev f)"
  by (cases ev) (auto simp: circuit_check_def resetCircuit_def split: if_splits)

lemma closing_resets:
  "circuitOpen f \<Longrightarrow> \<not> circuitOpen (apply_event ev f) \<Longrightarrow> failureCount (apply_event ev f) = 0"
  by (cases ev) (auto simp: circuit_check_def resetCircuit_def split: if_splits)

lemma zero_is_closed:
  assumes "reachable f" and "failureCount (apply_event ev f) = 0"
  shows "\<not> circuitOpen (apply_event ev f)"
proof (cases ev)
  case (Check now1 now2)
  with assms(2) reachable_invariant [OF assms(1)] circuit_check_snd [of now1 now2 f]
  show ?thesis by auto
next
  case Failure
  with assms(2) reachable_invariant [OF assms(1)] wrap_int_succ_nonzero [of "failureCount f"]
  show ?thesis by simp
next
  case Success
  then show ?thesis by (simp add: resetCircuit_def)
next
  case (Exhausted now)
  with assms(2) reachable_invariant [OF assms(1)] show ?thesis by auto
qed

lemma loop_success_state:
  "outcome (retry_loop e f lastErr i n) = Returned v None \<Longrightarrow> lastErr \<noteq> None \<or> i \<le> retry f \<Longrightarrow>
   failureCount (fetcher (retry_loop e f lastErr i n)) = 0
   \<and> \<not> circuitOpen (fetcher (retry_loop e f lastErr i n))"
  by (induction f lastErr i n rule: loop_induct [where e = e])
     (auto simp: loop_exit loop_request_error loop_panic loop_success loop_failure
        resetCircuit_def)

text \<open>
  A call of \<^verbatim>\<open>Fetch\<close> is a sequence of events, so the fetcher stays reachable across
  calls whose counted failures fit below the largest \<^verbatim>\<open>int\<close>.
\<close>

lemma loop_reachable:
  "reachable f \<Longrightarrow> failureCount f + (retry f - i + 1) \<le> MaxInt \<Longrightarrow>
   reachable (fetcher (retry_loop e f lastErr i n))"
proof (induction f lastErr i n rule: loop_induct [where e = e])
  case (exit f lastErr i n)
  from exit(2) have "reachable (apply_event (Exhausted (now_exhausted e)) f)"
    by (rule reachable.event) simp
  then show ?case using exit(1) by (simp add: loop_exit)
next
  case (request_error f lastErr i n err)
  then show ?case by (simp add: loop_request_error)
next
  case (panic f lastErr i n)
  then show ?case by (simp add: loop_panic)
next
  case (success f lastErr i n v)
  from success(4) have "reachable (apply_event Success f)"
    by (rule reachable.event) simp
  then show ?case using success by (simp add: loop_success)
next
  case (failure f lastErr i n err)
  from failure(1,6) have below: "failureCount f < MaxInt" by simp
  with failure(5) have step: "reachable (apply_event Failure f)"
    by (intro reachable.event) simp_all
  have "wrap_int (failureCount f + 1) = failureCount f + 1"
    using below reachable_invariant [OF failure(5)]
    by (intro wrap_int_in_range) (simp_all add: MinInt_def)
  then have "failureCount (incrementFailureCount f)
      + (retry (incrementFailureCount f) - (i + 1) + 1) \<le> MaxInt"
    using failure(6) by simp
  with step have "reachable (fetcher (retry_loop e (incrementFailureCount f) (Some err) (i + 1) (n + 1)))"
    by (intro failure(4)) simp_all
  then show ?case using failure(1-3) by (simp add: loop_failure)
qed

lemma Fetch_reachable:
  assumes "reachable f" and "retry f + 1 \<le> MaxInt - failureCount f"
  shows "reachable (fetcher (Fetch f e))"
proof (cases "bypassed f e")
  case True
  then have "fetcher (Fetch f e) = f"
    by (auto simp: Fetch_def bypassed_def circuit_check_def split: if_splits)
  with assms(1) show ?thesis by simp
next
  case False
  from assms(1) have "reachable (apply_event (Check (now_check e) (now_recheck e)) f)"
    by (rule reachable.event) simp
  then have start: "reachable (admitted f e)"
    by (simp add: admitted_def)
  have "failureCount (admitted f e) \<le> failureCount f"
    using reachable_invariant [OF assms(1)] by (simp add: admitted_def circuit_check_def)
  with assms(2) have "failureCount (admitted f e) + (retry (admitted f e) - 0 + 1) \<le> MaxInt"
    by simp
  with start have "reachable (fetcher (retry_loop e (admitted f e) None 0 0))"
    by (rule loop_reachable)
  with False show ?thesis by (simp add: Fetch_admitted)
qed

text \<open>
  Claim C7. In every reachable fetcher an open breaker has a failure count at or above the
  threshold, and this holds at the event that opens it. The failure count is set to 0
  together with the closing of the breaker: an event that closes an open breaker leaves
  the count at 0, and a count of 0 after an event goes with a closed breaker. In
  particular a success recorded after \<open>k\<close> failures, and a call of \<^verbatim>\<open>Fetch\<close> that returns
  a value of the upstream, leave the count at 0 and the breaker closed.
\<close>

theorem breaker_invariant:
  assumes "reachable f"
  shows "(circuitOpen f \<longrightarrow> failureThreshold f \<le> failureCount f)
    \<and> (\<not> circuitOpen f \<and> circuitOpen (apply_event ev f) \<longrightarrow>
         failureThreshold f \<le> failureCount (apply_event ev f))
    \<and> (circuitOpen f \<and> \<not> circuitOpen (apply_event ev f) \<longrightarrow>
         failureCount (apply_event ev f) = 0)
    \<and> (failureCount (apply_event ev f) = 0 \<longrightarrow> \<not> circuitOpen (apply_event ev f))
    \<and> failureCount (resetCircuit ((incrementFailureCount ^^ k) f)) = 0
    \<and> \<not> circuitOpen (resetCircuit ((incrementFailureCount ^^ k) f))
    \<and> (\<not> bypassed f e \<and> 0 \<le> retry f \<and> outcome (Fetch f e) = Returned v None \<longrightarrow>
         failureCount (fetcher (Fetch f e)) = 0 \<and> \<not> circuitOpen (fetcher (Fetch f e)))"
proof -
  from assms have now: "circuitOpen f \<longrightarrow> failureThreshold f \<le> failureCount f"
    using reachable_invariant by blast
  have success: "failureCount (fetcher (Fetch f e)) = 0 \<and> \<not> circuitOpen (fetcher (Fetch f e))"
    if "\<not> bypassed f e" and "0 \<le> retry f" and "outcome (Fetch f e) = Returned v None"
  proof -
    from that have "outcome (retry_loop e (admitted f e) None 0 0) = Returned v None"
      by (simp add: Fetch_admitted)
    moreover have "None \<noteq> (None :: error option) \<or> 0 \<le> retry (admitted f e)"
      using that(2) by simp
    ultimately have "failureCount (fetcher (retry_loop e (admitted f e) None 0 0)) = 0
        \<and> \<not> circuitOpen (fetcher (retry_loop e (admitted f e) None 0 0))"
      by (rule loop_success_state)
    with that(1) show ?thesis by (simp add: Fetch_admitted)
  qed
  have reset: "failureCount (resetCircuit ((incrementFailureCount ^^ k) f)) = 0"
    "\<not> circuitOpen (resetCircuit ((incrementFailureCount ^^ k) f))"
    by (simp_all add: resetCircuit_def)
  from now success reset opening_at_threshold [of f ev] closing_resets [of f ev]
    zero_is_closed [OF assms, of ev]
  show ?thesis by blast
qed

theorem breaker_invariant_witness:
  "reachable two_failures
   \<and> circuitOpen two_failures
   \<and> failureThreshold two_failures \<le> failureCount two_failures
   \<and> \<not> circuitOpen (apply_event (Check 7000000000 7000000001) two_failures)
   \<and> failureCount (apply_event (Check 7000000000 7000000001) two_failures) = 0
   \<and> failureCount (resetCircuit ((incrementFailureCount ^^ 1) two_failures)) = 0
   \<and> \<not> circuitOpen (resetCircuit ((incrementFailureCount ^^ 1) two_failures))"
proof -
  have "reachable main_fetcher"
    unfolding main_fetcher_def by (rule reachable.new)
  then have once: "reachable (apply_event Failure main_fetcher)"
    by (rule reachable.event) (simp add: main_fetcher_def NewApiCotacaoFetcher_def MaxInt_def)
  have below: "failureCount (apply_event Failure main_fetcher) < MaxInt"
    by (simp add: main_fetcher_def NewApiCotacaoFetcher_def MaxInt_def wrap_int_def)
  have 1: "reachable two_failures"
    unfolding two_failures_def using below by (intro reachable.event [OF once]) simp
  have 2: "circuitOpen two_failures"
    by (simp add: two_failures_def main_fetcher_def NewApiCotacaoFetcher_def wrap_int_def)
  have 3: "\<not> circuitOpen (apply_event (Check 7000000000 7000000001) two_failures)"
    by (simp add: two_failures_def main_fetcher_def NewApiCotacaoFetcher_def wrap_int_def
        circuit_check_def Since_def maxDuration_def minDuration_def)
  from breaker_invariant [OF 1, of "Check 7000000000 7000000001" 1] 2 3
  show ?thesis using 1 by simp
qed

subsection \<open>The bid, from the payload to the response\<close>

text \<open>
  Claim C9 says that for every well-formed payload the bid that reaches the response of the
  handler is the string of the payload. The decoder matches the field name without regard
  to letter case and lets a later field overwrite an earlier one: on the payload
  \<^verbatim>\<open>{"USDBRL": {"bid": "1", "BiD": "2"}}\<close> the fetcher of \<^verbatim>\<open>main\<close> returns \<^verbatim>\<open>2\<close>, and
  the handler answers \<^verbatim>\<open>{"Cotacao": "2"}\<close>, while the bid of the payload is \<^verbatim>\<open>1\<close>.
\<close>

theorem second_spelling_wins:
  "Fetch main_fetcher
     (env_of 5000000000 (\<lambda>n. Responded \<lparr>StatusCode = 200, Body = Document two_bids_payload\<rparr>)) =
     \<lparr>outcome = Returned ''2'' None, fetcher = main_fetcher, attempts = 1\<rparr>
   \<and> fst (cotacaoHandler main_fetcher
        (env_of 5000000000 (\<lambda>n. Responded \<lparr>StatusCode = 200, Body = Document two_bids_payload\<rparr>))
        (\<lambda>bid. None)) =
      Served 200 (JSON (JObject [(''Cotacao'', JString ''2'')]))"
  by (simp add: cotacaoHandler_def two_bids_payload_def main_fetcher_def
      NewApiCotacaoFetcher_def env_of_def evaluation)

text \<open>The decoder on a well-formed payload.\<close>

lemma decode_fields_bid_fields: "decode_fields kvs b = decode_fields (bid_fields kvs) b"
proof (induction kvs arbitrary: b)
  case Nil
  show ?case by (simp add: bid_fields_def)
next
  case (Cons kv kvs)
  obtain k v where kv: "kv = (k, v)" by (cases kv)
  show ?case
  proof (cases "is_bid_key k")
    case True
    then have "bid_fields (kv # kvs) = (k, v) # bid_fields kvs"
      by (simp add: bid_fields_def kv)
    then show ?thesis using True Cons.IH by (simp add: kv split: json.splits)
  next
    case False
    then have "bid_fields (kv # kvs) = bid_fields kvs"
      by (simp add: bid_fields_def kv)
    then show ?thesis using False Cons.IH by (simp add: kv)
  qed
qed

lemma decode_fields_total:
  "list_all (\<lambda>kv. string_or_null (snd kv)) kvs \<Longrightarrow> \<exists>b'. decode_fields kvs b = Inr b'"
proof (induction kvs arbitrary: b)
  case Nil
  show ?case by simp
next
  case (Cons kv kvs)
  obtain k v where kv: "kv = (k, v)" by (cases kv)
  from Cons.prems have "string_or_null v" and rest: "list_all (\<lambda>kv. string_or_null (snd kv)) kvs"
    by (simp_all add: kv)
  then consider s where "v = JString s" | "v = JNull"
    by (cases v) (simp_all add: string_or_null_def)
  then show ?case
    using Cons.IH [OF rest] by cases (simp_all add: kv)
qed

lemma decode_member_total:
  assumes "decodable_member v"
  shows "\<exists>c. decode_Cotacao v = Inr c"
proof (cases v)
  case JNull
  then show ?thesis by (simp add: decode_Cotacao_def)
next
  case (JObject kvs)
  with assms have "list_all (\<lambda>kv. string_or_null (snd kv)) (bid_fields kvs)"
    by (simp add: decodable_member_def)
  then obtain b where "decode_fields (bid_fields kvs) '''' = Inr b"
    using decode_fields_total by blast
  then have "decode_fields kvs '''' = Inr b"
    by (simp add: decode_fields_bid_fields [of kvs])
  with JObject show ?thesis by (simp add: decode_Cotacao_def)
qed (use assms in \<open>simp_all add: decodable_member_def\<close>)

lemma decode_quote:
  assumes "map snd (bid_fields kvs) = [JString s]"
  shows "decode_Cotacao (JObject kvs) = Inr \<lparr>Bid = to_valid_utf8 s\<rparr>"
proof -
  from assms obtain k where one: "bid_fields kvs = [(k, JString s)]"
    by (cases "bid_fields kvs") auto
  then have "(k, JString s) \<in> set (bid_fields kvs)"
    by simp
  then have "is_bid_key k"
    by (simp add: bid_fields_def)
  then have "decode_fields (bid_fields kvs) '''' = Inr (to_valid_utf8 s)"
    by (simp add: one)
  then have "decode_fields kvs '''' = Inr (to_valid_utf8 s)"
    by (simp add: decode_fields_bid_fields [of kvs])
  then show ?thesis by (simp add: decode_Cotacao_def)
qed

lemma decode_members_last:
  "list_all (\<lambda>kv. decodable_member (snd kv)) members \<Longrightarrow>
   \<exists>m'. decode_members members m = Inr m'
     \<and> (\<forall>k. m' k =
          (case map_of (rev members) k of
             None \<Rightarrow> m k
           | Some v \<Rightarrow> (case decode_Cotacao v of Inl err \<Rightarrow> None | Inr c \<Rightarrow> Some c)))"
proof (induction members arbitrary: m)
  case Nil
  show ?case by simp
next
  case (Cons kv members)
  obtain k0 v0 where kv: "kv = (k0, v0)" by (cases kv)
  from Cons.prems have first: "decodable_member v0"
    and rest: "list_all (\<lambda>kv. decodable_member (snd kv)) members"
    by (simp_all add: kv)
  from decode_member_total [OF first] obtain c where c: "decode_Cotacao v0 = Inr c"
    by blast
  from Cons.IH [OF rest, of "m(k0 \<mapsto> c)"]
  obtain m' where m': "decode_members members (m(k0 \<mapsto> c)) = Inr m'"
    and look: "\<forall>k. m' k =
      (case map_of (rev members) k of
         None \<Rightarrow> (m(k0 \<mapsto> c)) k
       | Some v \<Rightarrow> (case decode_Cotacao v of Inl err \<Rightarrow> None | Inr c \<Rightarrow> Some c))"
    by blast
  have run: "decode_members (kv # members) m = Inr m'"
    using m' c by (simp add: kv)
  have "m' k =
      (case map_of (rev (kv # members)) k of
         None \<Rightarrow> m k
       | Some v \<Rightarrow> (case decode_Cotacao v of Inl err \<Rightarrow> None | Inr c \<Rightarrow> Some c))" for k
    using look c by (simp add: kv map_add_def split: option.splits)
  with run show ?case by blast
qed

lemma Decode_well_formed:
  assumes "well_formed_payload doc s" and body: "Body resp = Document doc"
  shows "success_of (Responded resp) = Some s"
proof -
  from assms(1) obtain members where doc: "doc = JObject members"
    by (cases doc) (simp_all add: well_formed_payload_def)
  with assms(1) have members: "list_all (\<lambda>kv. decodable_member (snd kv)) members"
    and last: "case map_of (rev members) ''USDBRL'' of
        Some (JObject kvs) \<Rightarrow> map snd (bid_fields kvs) = [JString s]
      | _ \<Rightarrow> False"
    and valid: "to_valid_utf8 s = s"
    by (simp_all add: well_formed_payload_def)
  from last obtain q where q: "map_of (rev members) ''USDBRL'' = Some q"
    by (cases "map_of (rev members) ''USDBRL''") simp_all
  with last obtain kvs where "q = JObject kvs" and bid: "map snd (bid_fields kvs) = [JString s]"
    by (cases q) simp_all
  with q have usd: "map_of (rev members) ''USDBRL'' = Some (JObject kvs)"
    by simp
  from decode_members_last [OF members, of Map.empty]
  obtain m' where m': "decode_members members Map.empty = Inr m'"
    and look: "\<forall>k. m' k =
      (case map_of (rev members) k of
         None \<Rightarrow> None
       | Some v \<Rightarrow> (case decode_Cotacao v of Inl err \<Rightarrow> None | Inr c \<Rightarrow> Some c))"
    by auto
  have "Decode (Body resp) = Inr m'"
    using body m' by (simp add: Decode_def doc)
  moreover have "m' ''USDBRL'' = Some \<lparr>Bid = s\<rparr>"
    using look usd decode_quote [OF bid] valid by simp
  ultimately show ?thesis by (simp add: index_Bid_def)
qed

text \<open>
  Claim C9 as amended. For every payload that decodes, whose last member under the key
  \<^verbatim>\<open>USDBRL\<close> is an object with exactly one field spelled \<^verbatim>\<open>bid\<close>, in any letter case, and
  a string \<open>s\<close> of valid UTF-8 in that field, the bid that \<^verbatim>\<open>Fetch\<close> extracts and that the
  handler encodes into its response is \<open>s\<close>, byte for byte: when the payload is the answer
  to the first attempt that is not a counted failure and the repository saves the value,
  \<^verbatim>\<open>Fetch\<close> returns \<open>s\<close> and the handler answers 200 with the document
  \<^verbatim>\<open>{"Cotacao": s}\<close>. The value is never read as a number.
\<close>

theorem bid_round_trip:
  assumes "well_formed_payload doc s"
    and "\<not> bypassed f e" and "newRequest e = None" and "int k \<le> retry f"
    and "\<forall>j<k. failure_of (upstream e j) \<noteq> None"
    and "upstream e k = Responded resp" and "Body resp = Document doc"
    and "Save s = None"
  shows "outcome (Fetch f e) = Returned s None
    \<and> fst (cotacaoHandler f e Save) = Served 200 (JSON (JObject [(''Cotacao'', JString s)]))"
proof -
  let ?g = "(incrementFailureCount ^^ k) (admitted f e)"
  from assms(1) have valid: "to_valid_utf8 s = s"
    by (auto simp: well_formed_payload_def split: json.splits)
  have "success_of (upstream e k) = Some s"
    using Decode_well_formed [OF assms(1) assms(7)] assms(6) by simp
  moreover have "Fetch f e = retry_loop e ?g (last_error e None 0 k) (int k) k"
    using assms(2-5) by (intro Fetch_failures) simp_all
  ultimately have "Fetch f e =
      \<lparr>outcome = Returned s None, fetcher = resetCircuit ?g, attempts = k + 1\<rparr>"
    using assms(3,4) by (simp add: loop_success)
  then show ?thesis using assms(8) valid by (simp add: cotacaoHandler_def)
qed

theorem bid_round_trip_witness:
  "well_formed_payload usd_payload ''5.4300''
   \<and> \<not> bypassed main_fetcher
        (env_of 5000000000 (\<lambda>n. if n = 0 then garbled else Responded \<lparr>StatusCode = 200, Body = Document usd_payload\<rparr>))
   \<and> fst (cotacaoHandler main_fetcher
        (env_of 5000000000 (\<lambda>n. if n = 0 then garbled else Responded \<lparr>StatusCode = 200, Body = Document usd_payload\<rparr>))
        (\<lambda>bid. None)) =
      Served 200 (JSON (JObject [(''Cotacao'', JString ''5.4300'')]))"
proof -
  let ?resp = "\<lparr>StatusCode = 200, Body = Document usd_payload\<rparr>"
  let ?e = "env_of 5000000000 (\<lambda>n. if n = 0 then garbled else Responded ?resp)"
  have 1: "well_formed_payload usd_payload ''5.4300''"
    by (simp add: well_formed_payload_def usd_payload_def decodable_member_def
        string_or_null_def bid_fields_def is_bid_key_def to_valid_utf8_def in_range_def
        Let_def)
  have 2: "\<not> bypassed main_fetcher ?e"
    by (simp add: bypassed_def circuit_check_def main_fetcher_def NewApiCotacaoFetcher_def)
  have 3: "newRequest ?e = None" "int 1 \<le> retry main_fetcher"
    by (simp_all add: main_fetcher_def NewApiCotacaoFetcher_def env_of_def)
  have 4: "\<forall>j<1. failure_of (upstream ?e j) \<noteq> None"
    by (simp add: env_of_def garbled_def Decode_def)
  have 5: "upstream ?e 1 = Responded ?resp" "Body ?resp = Document usd_payload"
    by (simp_all add: env_of_def)
  have 7: "(\<lambda>bid. None :: error option) ''5.4300'' = None"
    by simp
  from bid_round_trip [OF 1 2 3 4 5 7] 1 2 show ?thesis by simp
qed

end
